theory Spec2Isabelle
  imports Main
begin

section \<open>The IR transmitter of irxmit.py\<close>

text \<open>
  A shallow embedding of class \<open>IRxmit\<close> of \<^verbatim>\<open>src/irxmit.py\<close>. Python's unbounded
  integers are \<open>int\<close>, its strings are \<open>string\<close> (the characters with code points
  0 to 255), every exception the code can raise is a value of \<open>py_error\<close>, and the
  waveform buffer \<open>wb\<close> is a list that each loop passes on extended.

  The pigpio daemon is outside the repository. Of the library only the value class
  \<open>pigpio.pulse(gpio_on, gpio_off, delay)\<close> is modelled, as a record; the waveform
  handed to the device (\<open>wave_add_generic(wb)\<close>, \<open>wave_create\<close>, \<open>wave_send_once\<close>) is
  represented by the pulse list itself.
\<close>

subsection \<open>Exceptions and pulses\<close>

datatype py_error =
    ValueError          \<comment> \<open>raised by \<open>int(byte, 16)\<close> and by \<open>1 << pin\<close> for a negative pin\<close>
  | Exception string    \<comment> \<open>\<open>raise Exception('Unknown format specified.')\<close>\<close>

record pulse =
  gpio_on :: int
  gpio_off :: int
  delay :: int

definition mk_pulse :: "int \<Rightarrow> int \<Rightarrow> int \<Rightarrow> pulse" where
  "mk_pulse on off d = \<lparr>gpio_on = on, gpio_off = off, delay = d\<rparr>"

subsection \<open>The builtin \<open>int(x, 16)\<close>\<close>

text \<open>
  CPython's \<open>int(str, 16)\<close>: blanks are skipped on both sides, one sign is allowed, then an
  optional \<open>0x\<close> or \<open>0X\<close> prefix, then at least one hexadecimal digit, with single
  underscores allowed between digits (and one after the prefix). Anything else raises
  \<open>ValueError\<close>.
\<close>

definition py_isspace :: "char \<Rightarrow> bool" where
  "py_isspace c = (let n = (of_char c :: nat) in (9 \<le> n \<and> n \<le> 13) \<or> n = 32 \<or> n = 133 \<or> n = 160)"

definition digit_value :: "char \<Rightarrow> nat" where
  "digit_value c =
     (let n = (of_char c :: nat) in
      if 48 \<le> n \<and> n \<le> 57 then n - 48
      else if 97 \<le> n \<and> n \<le> 122 then n - 87
      else if 65 \<le> n \<and> n \<le> 90 then n - 55
      else 37)"

definition is_digit16 :: "char \<Rightarrow> bool" where
  "is_digit16 c = (digit_value c < 16)"

fun skip_prefix16 :: "string \<Rightarrow> string" where
  "skip_prefix16 (c0 # c1 # cs) =
     (if c0 = CHR ''0'' \<and> (c1 = CHR ''x'' \<or> c1 = CHR ''X'')
      then (case cs of [] \<Rightarrow> [] | c2 # cs' \<Rightarrow> if c2 = CHR ''_'' then cs' else cs)
      else c0 # c1 # cs)"
| "skip_prefix16 cs = cs"

text \<open>
  The digit scan: it consumes digits, and an underscore when a digit follows it, and
  returns the value and what is left.
\<close>

fun scan_digits16 :: "nat \<Rightarrow> string \<Rightarrow> nat \<times> string" where
  "scan_digits16 acc [] = (acc, [])"
| "scan_digits16 acc [c] = (if is_digit16 c then (16 * acc + digit_value c, []) else (acc, [c]))"
| "scan_digits16 acc (c # d # cs) =
     (if is_digit16 c then scan_digits16 (16 * acc + digit_value c) (d # cs)
      else if c = CHR ''_'' \<and> is_digit16 d then scan_digits16 (16 * acc + digit_value d) cs
      else (acc, c # d # cs))"

definition py_int16 :: "string \<Rightarrow> py_error + int" where
  "py_int16 x =
     (let s0 = dropWhile py_isspace x;
          neg = (s0 \<noteq> [] \<and> hd s0 = CHR ''-'');
          s1 = (if s0 \<noteq> [] \<and> (hd s0 = CHR ''+'' \<or> hd s0 = CHR ''-'') then tl s0 else s0);
          s2 = skip_prefix16 s1
      in if s2 = [] \<or> \<not> is_digit16 (hd s2) then Inl ValueError
         else (case scan_digits16 0 s2 of
                 (v, rest) \<Rightarrow>
                   if dropWhile py_isspace rest = []
                   then Inr (if neg then - int v else int v)
                   else Inl ValueError))"

subsection \<open>The format specification \<open>08b\<close>\<close>

definition bit_char :: "nat \<Rightarrow> char" where
  "bit_char b = (if b = 0 then CHR ''0'' else CHR ''1'')"

fun bin_digits :: "nat \<Rightarrow> string" where
  "bin_digits n = (if n < 2 then [bit_char n] else bin_digits (n div 2) @ [bit_char (n mod 2)])"

declare bin_digits.simps [simp del]

definition zfill :: "nat \<Rightarrow> string \<Rightarrow> string" where
  "zfill w ds = replicate (w - length ds) (CHR ''0'') @ ds"

text \<open>\<open>f'{v:08b}'\<close>: the sign counts in the width of 8, the zeros follow it.\<close>

definition format_08b :: "int \<Rightarrow> string" where
  "format_08b v =
     (if v < 0 then CHR ''-'' # zfill 7 (bin_digits (nat (- v))) else zfill 8 (bin_digits (nat v)))"

subsection \<open>\<open>IRxmit.get_bitstream\<close>\<close>

text \<open>The slice \<open>s[a:b]\<close> for \<open>0 \<le> a \<le> b\<close>.\<close>

definition slice :: "'a list \<Rightarrow> nat \<Rightarrow> nat \<Rightarrow> 'a list" where
  "slice s a b = take (b - a) (drop a s)"

text \<open>
  The body of the loop \<open>for i in range(0, len(s) // 2)\<close>, run over the list of the
  indices, with the string \<open>bits\<close> built so far. An exception of \<open>int\<close> ends the loop.
\<close>

fun bitstream_loop :: "string \<Rightarrow> nat list \<Rightarrow> string \<Rightarrow> py_error + string" where
  "bitstream_loop s [] bits = Inr bits"
| "bitstream_loop s (i # is) bits =
     (let byte = slice s (i * 2) (i * 2 + 2) in
      case py_int16 byte of
        Inl e \<Rightarrow> Inl e
      | Inr v \<Rightarrow>
          (let bits_MSB_first = format_08b v
           in bitstream_loop s is (bits @ rev bits_MSB_first)))"

definition get_bitstream :: "string \<Rightarrow> py_error + string" where
  "get_bitstream s = bitstream_loop s [0 ..< length s div 2] []"

subsection \<open>The transmitter object\<close>

text \<open>
  The private fields the constructor sets. \<open>T_FRAME_MAX\<close>, a float that no method reads,
  and the pigpio handle \<open>pi\<close> are left out.
\<close>

record IRxmit =
  pin :: int
  host :: string
  T_CARRIER :: int
  MARK_CYCLES :: int
  MARK_OFF :: int
  T_LEADER_ON :: int
  T_LEADER_OFF :: int

definition init :: "int \<Rightarrow> string \<Rightarrow> string \<Rightarrow> py_error + IRxmit" where
  "init pin0 host0 format =
     (if format = ''AEHA'' then
        Inr \<lparr>pin = pin0, host = host0, T_CARRIER = 26, MARK_CYCLES = 17, MARK_OFF = 3,
             T_LEADER_ON = 8, T_LEADER_OFF = 4\<rparr>
      else if format = ''NEC'' then
        Inr \<lparr>pin = pin0, host = host0, T_CARRIER = 26, MARK_CYCLES = 22, MARK_OFF = 3,
             T_LEADER_ON = 16, T_LEADER_OFF = 8\<rparr>
      else Inl (Exception ''Unknown format specified.''))"

subsection \<open>\<open>IRxmit.synthesize_frame\<close>\<close>

text \<open>\<open>1 << pin\<close>: Python raises \<open>ValueError\<close> on a negative shift count.\<close>

definition pin_mask :: "int \<Rightarrow> py_error + int" where
  "pin_mask p = (if p < 0 then Inl ValueError else Inr (2 ^ nat p))"

text \<open>
  The carrier loop \<open>for i in range(0, n)\<close>, which appends one on pulse and one off pulse
  of \<open>T_CARRIER // 2\<close> microseconds each; \<open>m\<close> is the mask \<open>1 << pin\<close>. A count
  that is not positive gives an empty range, which \<open>nat\<close> maps to 0 at the call.
\<close>

fun carrier_loop :: "nat \<Rightarrow> IRxmit \<Rightarrow> int \<Rightarrow> pulse list \<Rightarrow> pulse list" where
  "carrier_loop 0 tx m wb = wb"
| "carrier_loop (Suc n) tx m wb =
     carrier_loop n tx m
       (wb @ [mk_pulse m 0 (T_CARRIER tx div 2), mk_pulse 0 m (T_CARRIER tx div 2)])"

text \<open>The loop \<open>for bit in bits\<close>. A character other than 0 and 1 gets a mark and no space.\<close>

fun data_loop :: "IRxmit \<Rightarrow> int \<Rightarrow> string \<Rightarrow> pulse list \<Rightarrow> pulse list" where
  "data_loop tx m [] wb = wb"
| "data_loop tx m (b # bits) wb =
     (let wb1 = carrier_loop (nat (MARK_CYCLES tx)) tx m wb;
          wb2 = (if b = CHR ''0'' then
                   wb1 @ [mk_pulse 0 m (T_CARRIER tx * MARK_CYCLES tx)]
                 else if b = CHR ''1'' then
                   wb1 @ [mk_pulse 0 m (T_CARRIER tx * MARK_CYCLES tx * MARK_OFF tx)]
                 else wb1)
      in data_loop tx m bits wb2)"

text \<open>
  The result is the wave buffer that \<open>wave_add_generic\<close> receives, which stands for the
  wave id that pigpio makes of it. The method has no check and no \<open>raise\<close> of its own
  between building the buffer and handing it over. What pigpio does with a buffer is
  not modelled: \<open>Inr wb\<close> says that \<open>wb\<close> is the buffer handed over, not that pigpio
  accepts it (it packs each field as an unsigned 32-bit number, and refuses a negative
  delay or a mask of 33 bits). The theorems below are about the content of the buffer.
\<close>

definition synthesize_frame :: "IRxmit \<Rightarrow> string \<Rightarrow> py_error + pulse list" where
  "synthesize_frame tx bits =
     (case pin_mask (pin tx) of
        Inl e \<Rightarrow> Inl e
      | Inr m \<Rightarrow>
          (let wb = [];
               wb = carrier_loop (nat (MARK_CYCLES tx * T_LEADER_ON tx)) tx m wb;
               wb = wb @ [mk_pulse 0 m (T_CARRIER tx * MARK_CYCLES tx * T_LEADER_OFF tx)];
               wb = data_loop tx m bits wb;
               wb = carrier_loop (nat (MARK_CYCLES tx)) tx m wb;
               wb = wb @ [mk_pulse 0 m (8000 - T_CARRIER tx * MARK_CYCLES tx)]
           in Inr wb))"

subsection \<open>\<open>IRxmit.send\<close>\<close>

text \<open>
  \<open>Inr wb\<close>: the code raised nothing, and \<open>wb\<close> is the waveform it gave to pigpio to
  create and to send once. \<open>Inl e\<close>: \<open>e\<close> was raised, and pigpio was given nothing.
\<close>

definition send :: "IRxmit \<Rightarrow> string \<Rightarrow> py_error + pulse list" where
  "send tx s =
     (case get_bitstream s of
        Inl e \<Rightarrow> Inl e
      | Inr bits \<Rightarrow> synthesize_frame tx bits)"

section \<open>Reading a bitstream back\<close>

text \<open>
  The decoder of the round-trip law, written from the specification: the bitstream is cut
  into groups of 8, each group is reversed and read as a binary number, most significant
  bit first. \<open>payload_bytes\<close> are the bytes that a hexadecimal text denotes, two
  characters a byte, the high nibble first.
\<close>

definition read_bin :: "string \<Rightarrow> nat" where
  "read_bin ds = foldl (\<lambda>a c. 2 * a + (if c = CHR ''1'' then 1 else 0)) 0 ds"

fun decode_bitstream :: "string \<Rightarrow> nat list" where
  "decode_bitstream bits =
     (if length bits < 8 then []
      else read_bin (rev (take 8 bits)) # decode_bitstream (drop 8 bits))"

declare decode_bitstream.simps [simp del]

fun payload_bytes :: "string \<Rightarrow> nat list" where
  "payload_bytes (h # l # cs) = (16 * digit_value h + digit_value l) # payload_bytes cs"
| "payload_bytes [] = []"
| "payload_bytes [c] = []"

section \<open>Vocabulary of the frame layout\<close>

text \<open>
  \<open>half_cycle_pairs tx m k\<close> are \<open>k\<close> subcarrier cycles on the pin with mask \<open>m\<close>: an on
  pulse and an off pulse of half the carrier period each, \<open>k\<close> times. \<open>data_pulses\<close> is
  what one pass of the loop over the bits appends.
\<close>

definition half_cycle_pairs :: "IRxmit \<Rightarrow> int \<Rightarrow> nat \<Rightarrow> pulse list" where
  "half_cycle_pairs tx m k =
     concat (replicate k [mk_pulse m 0 (T_CARRIER tx div 2), mk_pulse 0 m (T_CARRIER tx div 2)])"

definition data_pulses :: "IRxmit \<Rightarrow> int \<Rightarrow> char \<Rightarrow> pulse list" where
  "data_pulses tx m b = data_loop tx m [b] []"

definition mark_duration :: "IRxmit \<Rightarrow> int" where
  "mark_duration tx = T_CARRIER tx * MARK_CYCLES tx"

definition total_duration :: "pulse list \<Rightarrow> int" where
  "total_duration wb = sum_list (map delay wb)"

text \<open>
  The two-character texts that \<open>int(byte, 16)\<close> accepts: two hexadecimal digits, a digit
  after a blank or a sign, or a digit before a blank.
\<close>

definition accepted_pair :: "char \<Rightarrow> char \<Rightarrow> bool" where
  "accepted_pair a b =
     (is_digit16 a \<and> is_digit16 b \<or>
      (py_isspace a \<or> a = CHR ''+'' \<or> a = CHR ''-'') \<and> is_digit16 b \<or>
      is_digit16 a \<and> py_isspace b)"

section \<open>The bitstream encoder\<close>

subsection \<open>Two hexadecimal digits, and one formatted byte\<close>

lemma int16_pair:
  assumes "is_digit16 a" "is_digit16 b"
  shows "py_int16 [a, b] = Inr (int (16 * digit_value a + digit_value b))"
proof -
  have a: "\<not> py_isspace a" "a \<noteq> CHR ''+''" "a \<noteq> CHR ''-''" "a \<noteq> CHR ''_''"
    using assms(1) by (auto simp: is_digit16_def digit_value_def py_isspace_def Let_def split: if_splits)
  have b: "\<not> py_isspace b" "b \<noteq> CHR ''x''" "b \<noteq> CHR ''X''"
    using assms(2) by (auto simp: is_digit16_def digit_value_def py_isspace_def Let_def split: if_splits)
  show ?thesis
    using a b assms by (simp add: py_int16_def Let_def)
qed

lemma length_bin_digits: "0 < k \<Longrightarrow> n < 2 ^ k \<Longrightarrow> length (bin_digits n) \<le> k"
proof (induction n arbitrary: k rule: bin_digits.induct)
  case (1 n)
  show ?case
  proof (cases "n < 2")
    case True
    then show ?thesis using "1.prems" by (simp add: bin_digits.simps[of n])
  next
    case False
    then obtain j where k: "k = Suc j" and j: "0 < j"
      using "1.prems" by (cases k; cases "k - 1") auto
    have "n div 2 < 2 ^ j" using "1.prems" k by auto
    from "1.IH"[OF False j this] show ?thesis
      using False k by (simp add: bin_digits.simps[of n])
  qed
qed

lemma read_bin_snoc: "read_bin (ds @ [c]) = 2 * read_bin ds + (if c = CHR ''1'' then 1 else 0)"
  by (simp add: read_bin_def)

lemma read_bin_bit_char: "b < 2 \<Longrightarrow> read_bin [bit_char b] = b"
  by (auto simp: read_bin_def bit_char_def)

lemma read_bin_bin_digits: "read_bin (bin_digits n) = n"
proof (induction n rule: bin_digits.induct)
  case (1 n)
  show ?case
  proof (cases "n < 2")
    case True
    then show ?thesis by (simp add: bin_digits.simps[of n] read_bin_bit_char)
  next
    case False
    have "read_bin (bin_digits n) = 2 * read_bin (bin_digits (n div 2)) + n mod 2"
      using False by (auto simp: bin_digits.simps[of n] read_bin_snoc bit_char_def)
    then show ?thesis using "1.IH"[OF False] by simp
  qed
qed

lemma read_bin_zeros: "read_bin (replicate k (CHR ''0'') @ ds) = read_bin ds"
proof -
  have "foldl (\<lambda>a c. 2 * a + (if c = CHR ''1'' then 1 else 0)) (0::nat) (replicate k (CHR ''0'')) = 0"
    by (induction k) auto
  then show ?thesis by (simp add: read_bin_def)
qed

lemma format_08b_byte:
  assumes "n < 256"
  shows "length (format_08b (int n)) = 8" "read_bin (format_08b (int n)) = n"
proof -
  have "length (bin_digits n) \<le> 8"
    using length_bin_digits[of 8 n] assms by simp
  then show "length (format_08b (int n)) = 8"
    by (simp add: format_08b_def zfill_def)
  show "read_bin (format_08b (int n)) = n"
    by (simp add: format_08b_def zfill_def read_bin_zeros read_bin_bin_digits)
qed

lemma bitstream_loop_shift:
  "bitstream_loop (a # b # s) (map Suc js) acc = bitstream_loop s js acc"
  by (induction js arbitrary: acc) (auto simp: slice_def Let_def split: sum.splits)

lemma decode_bitstream_group:
  "length g = 8 \<Longrightarrow> decode_bitstream (g @ bits) = read_bin (rev g) # decode_bitstream bits"
  by (subst decode_bitstream.simps) simp

lemma decode_bitstream_Nil: "decode_bitstream [] = []"
  by (simp add: decode_bitstream.simps)

lemma digit16_byte: "is_digit16 a \<Longrightarrow> is_digit16 b \<Longrightarrow> 16 * digit_value a + digit_value b < 256"
  by (simp add: is_digit16_def)

lemma bitstream_loop_hex:
  "\<forall>c \<in> set s. is_digit16 c \<Longrightarrow>
   \<exists>bits. bitstream_loop s [0 ..< length s div 2] acc = Inr (acc @ bits) \<and>
          length bits = 8 * (length s div 2) \<and>
          decode_bitstream bits = payload_bytes s"
proof (induction s arbitrary: acc rule: payload_bytes.induct)
  case (1 h l cs)
  let ?n = "16 * digit_value h + digit_value l"
  let ?g = "rev (format_08b (int ?n))"
  have hl: "is_digit16 h" "is_digit16 l" and cs: "\<forall>c \<in> set cs. is_digit16 c"
    using "1.prems" by auto
  have n: "?n < 256" using hl by (rule digit16_byte)
  obtain bits where bits:
    "bitstream_loop cs [0 ..< length cs div 2] (acc @ ?g) = Inr ((acc @ ?g) @ bits)"
    "length bits = 8 * (length cs div 2)" "decode_bitstream bits = payload_bytes cs"
    using "1.IH"[OF cs, of "acc @ ?g"] by blast
  have idx: "[0 ..< length (h # l # cs) div 2] = 0 # map Suc [0 ..< length cs div 2]"
    by (simp add: upt_conv_Cons map_Suc_upt del: upt_Suc)
  have "bitstream_loop (h # l # cs) [0 ..< length (h # l # cs) div 2] acc
        = bitstream_loop (h # l # cs) (map Suc [0 ..< length cs div 2]) (acc @ ?g)"
    unfolding idx by (simp add: slice_def int16_pair[OF hl] del: upt_Suc)
  also have "\<dots> = Inr (acc @ ?g @ bits)"
    using bits(1) by (simp add: bitstream_loop_shift)
  finally have run: "bitstream_loop (h # l # cs) [0 ..< length (h # l # cs) div 2] acc
        = Inr (acc @ ?g @ bits)" .
  have len: "length (?g @ bits) = 8 * (length (h # l # cs) div 2)"
    using bits(2) format_08b_byte(1)[OF n] by simp
  have dec: "decode_bitstream (?g @ bits) = payload_bytes (h # l # cs)"
    using bits(3) format_08b_byte[OF n] by (simp add: decode_bitstream_group)
  from run len dec show ?case by blast
next
  case 2
  then show ?case by (simp add: decode_bitstream_Nil)
next
  case (3 c)
  then show ?case by (simp add: decode_bitstream_Nil)
qed

subsection \<open>The round trip\<close>

text \<open>
  Claim C1. For every even-length text of hexadecimal digits, \<open>get_bitstream\<close> returns a
  bitstream of 8 bits for each pair of characters, and cutting the bitstream into groups
  of 8, reversing each group and reading it as a binary number gives back the bytes of
  the payload.
\<close>

theorem get_bitstream_round_trip:
  assumes "\<forall>c \<in> set s. is_digit16 c" and "even (length s)"
  shows "\<exists>bits. get_bitstream s = Inr bits \<and>
           length bits = 8 * (length s div 2) \<and>
           decode_bitstream bits = payload_bytes s"
  using bitstream_loop_hex[OF assms(1), of "[]"] by (simp add: get_bitstream_def)

theorem get_bitstream_round_trip_witness:
  "is_digit16 (CHR ''2'') \<and> is_digit16 (CHR ''c'') \<and> even (length ''2c'') \<and>
   payload_bytes ''2c'' = [44] \<and>
   (\<exists>bits. get_bitstream ''2c'' = Inr bits \<and> length bits = 8 \<and> decode_bitstream bits = [44])"
proof -
  have d: "is_digit16 (CHR ''2'')" "is_digit16 (CHR ''c'')"
    by (simp_all add: is_digit16_def digit_value_def)
  then have h: "\<forall>c \<in> set ''2c''. is_digit16 c" by simp
  have p: "payload_bytes ''2c'' = [44]" by (simp add: digit_value_def)
  show ?thesis
    using get_bitstream_round_trip[OF h] d p by simp
qed

section \<open>The pulse train synthesizer\<close>

subsection \<open>The loops in closed form\<close>

lemma half_cycle_pairs_Suc:
  "half_cycle_pairs tx m (Suc k) =
     [mk_pulse m 0 (T_CARRIER tx div 2), mk_pulse 0 m (T_CARRIER tx div 2)] @ half_cycle_pairs tx m k"
  by (simp add: half_cycle_pairs_def)

lemma carrier_loop_eq: "carrier_loop n tx m wb = wb @ half_cycle_pairs tx m n"
  by (induction n arbitrary: wb) (simp_all add: half_cycle_pairs_Suc, simp add: half_cycle_pairs_def)

lemma data_pulses_eq:
  "data_pulses tx m b =
     half_cycle_pairs tx m (nat (MARK_CYCLES tx)) @
     (if b = CHR ''0'' then [mk_pulse 0 m (T_CARRIER tx * MARK_CYCLES tx)]
      else if b = CHR ''1'' then [mk_pulse 0 m (T_CARRIER tx * MARK_CYCLES tx * MARK_OFF tx)]
      else [])"
  by (simp add: data_pulses_def carrier_loop_eq Let_def)

lemma data_loop_eq: "data_loop tx m bits wb = wb @ concat (map (data_pulses tx m) bits)"
proof (induction bits arbitrary: wb)
  case Nil
  show ?case by simp
next
  case (Cons b bits)
  have "data_loop tx m (b # bits) wb = data_loop tx m bits (wb @ data_pulses tx m b)"
    by (simp add: data_pulses_eq carrier_loop_eq Let_def)
  then show ?case by (simp add: Cons.IH)
qed

lemma synthesize_frame_layout:
  assumes "0 \<le> pin tx"
  shows "synthesize_frame tx bits =
     Inr (half_cycle_pairs tx (2 ^ nat (pin tx)) (nat (MARK_CYCLES tx * T_LEADER_ON tx)) @
          [mk_pulse 0 (2 ^ nat (pin tx)) (T_CARRIER tx * MARK_CYCLES tx * T_LEADER_OFF tx)] @
          concat (map (data_pulses tx (2 ^ nat (pin tx))) bits) @
          half_cycle_pairs tx (2 ^ nat (pin tx)) (nat (MARK_CYCLES tx)) @
          [mk_pulse 0 (2 ^ nat (pin tx)) (8000 - T_CARRIER tx * MARK_CYCLES tx)])"
  using assms by (simp add: synthesize_frame_def pin_mask_def carrier_loop_eq data_loop_eq)

lemma length_half_cycle_pairs: "length (half_cycle_pairs tx m k) = 2 * k"
  by (induction k) (simp_all add: half_cycle_pairs_Suc, simp add: half_cycle_pairs_def)

lemma total_duration_append: "total_duration (xs @ ys) = total_duration xs + total_duration ys"
  by (simp add: total_duration_def)

lemma total_duration_half_cycle_pairs:
  "total_duration (half_cycle_pairs tx m k) = int k * (2 * (T_CARRIER tx div 2))"
  by (induction k)
     (simp_all add: half_cycle_pairs_Suc total_duration_append algebra_simps,
      simp_all add: half_cycle_pairs_def total_duration_def mk_pulse_def)

lemma init_fields:
  assumes "init p h f = Inr tx"
  shows "pin tx = p" "T_CARRIER tx = 26" "MARK_OFF tx = 3"
    "f = ''AEHA'' \<or> f = ''NEC''"
    "f = ''AEHA'' \<Longrightarrow> MARK_CYCLES tx = 17 \<and> T_LEADER_ON tx = 8 \<and> T_LEADER_OFF tx = 4"
    "f = ''NEC'' \<Longrightarrow> MARK_CYCLES tx = 22 \<and> T_LEADER_ON tx = 16 \<and> T_LEADER_OFF tx = 8"
  using assms by (auto simp: init_def split: if_splits)

lemma data_pulses_bit:
  assumes "b = CHR ''0'' \<or> b = CHR ''1''"
  shows "data_pulses tx m b =
     half_cycle_pairs tx m (nat (MARK_CYCLES tx)) @
     [mk_pulse 0 m (if b = CHR ''0'' then mark_duration tx else mark_duration tx * MARK_OFF tx)]"
  using assms by (auto simp: data_pulses_eq mark_duration_def)

lemma init_pin_ok: "init p h f = Inr tx \<Longrightarrow> 0 \<le> p \<Longrightarrow> 0 \<le> pin tx"
  by (simp add: init_fields(1))

lemma init_mark_duration:
  assumes "init p h f = Inr tx"
  shows "total_duration (half_cycle_pairs tx m (nat (MARK_CYCLES tx))) = mark_duration tx"
  using init_fields[OF assms]
  by (auto simp: total_duration_half_cycle_pairs mark_duration_def)

subsection \<open>The leader\<close>

text \<open>
  Claim C7. Under either profile a synthesized frame starts with the leader: the on phase
  is \<open>MARK_CYCLES * T_LEADER_ON\<close> half-cycle pairs, which last
  \<open>mark_duration * T_LEADER_ON\<close> microseconds in total, and the off phase is the one
  pulse that follows them, of \<open>T_CARRIER * MARK_CYCLES * T_LEADER_OFF\<close> microseconds.
\<close>

theorem leader_timing:
  assumes "init p h f = Inr tx" and "0 \<le> p"
  shows "\<exists>rest. synthesize_frame tx bits =
            Inr (half_cycle_pairs tx (2 ^ nat p) (nat (MARK_CYCLES tx * T_LEADER_ON tx)) @
                 mk_pulse 0 (2 ^ nat p) (T_CARRIER tx * MARK_CYCLES tx * T_LEADER_OFF tx) # rest) \<and>
         total_duration (half_cycle_pairs tx (2 ^ nat p) (nat (MARK_CYCLES tx * T_LEADER_ON tx)))
           = mark_duration tx * T_LEADER_ON tx"
proof -
  note i = init_fields[OF assms(1)]
  have "total_duration (half_cycle_pairs tx (2 ^ nat p) (nat (MARK_CYCLES tx * T_LEADER_ON tx)))
           = mark_duration tx * T_LEADER_ON tx"
    using i by (auto simp: total_duration_half_cycle_pairs mark_duration_def)
  moreover have "0 \<le> pin tx" using i assms(2) by simp
  ultimately show ?thesis
    using i(1) by (simp add: synthesize_frame_layout)
qed

theorem leader_timing_witness:
  "init 13 ''127.0.0.1'' ''NEC'' =
     Inr \<lparr>pin = 13, host = ''127.0.0.1'', T_CARRIER = 26, MARK_CYCLES = 22, MARK_OFF = 3,
          T_LEADER_ON = 16, T_LEADER_OFF = 8\<rparr> \<and>
   (\<exists>rest. synthesize_frame \<lparr>pin = 13, host = ''127.0.0.1'', T_CARRIER = 26, MARK_CYCLES = 22,
               MARK_OFF = 3, T_LEADER_ON = 16, T_LEADER_OFF = 8\<rparr> ''10'' =
            Inr (half_cycle_pairs \<lparr>pin = 13, host = ''127.0.0.1'', T_CARRIER = 26, MARK_CYCLES = 22,
               MARK_OFF = 3, T_LEADER_ON = 16, T_LEADER_OFF = 8\<rparr> 8192 352 @
                 mk_pulse 0 8192 4576 # rest)) \<and>
   total_duration (half_cycle_pairs \<lparr>pin = 13, host = ''127.0.0.1'', T_CARRIER = 26,
      MARK_CYCLES = 22, MARK_OFF = 3, T_LEADER_ON = 16, T_LEADER_OFF = 8\<rparr> 8192 352) = 9152"
proof -
  have i: "init 13 ''127.0.0.1'' ''NEC'' =
     Inr \<lparr>pin = 13, host = ''127.0.0.1'', T_CARRIER = 26, MARK_CYCLES = 22, MARK_OFF = 3,
          T_LEADER_ON = 16, T_LEADER_OFF = 8\<rparr>"
    by (simp add: init_def)
  show ?thesis
    using leader_timing[OF i, of "''10''"] i by (simp add: mark_duration_def)
qed

subsection \<open>The data bits\<close>

text \<open>
  Claim C2. Under either profile the data section of a synthesized frame, which lies
  between the leader and the trailer, is one segment for each bit: a mark of
  \<open>MARK_CYCLES\<close> half-cycle pairs, lasting \<open>T_CARRIER * MARK_CYCLES\<close> microseconds
  whatever the bit, and then one off pulse, of \<open>mark_duration\<close> for the bit 0 and of
  \<open>mark_duration * MARK_OFF\<close> for the bit 1.
\<close>

theorem data_bit_timing:
  assumes "init p h f = Inr tx" and "0 \<le> p" and "set bits \<subseteq> {CHR ''0'', CHR ''1''}"
  shows "(\<exists>ldr trl.
            synthesize_frame tx bits =
              Inr (ldr @
                   concat (map (\<lambda>b. half_cycle_pairs tx (2 ^ nat p) (nat (MARK_CYCLES tx)) @
                                    [mk_pulse 0 (2 ^ nat p)
                                       (if b = CHR ''0'' then mark_duration tx
                                        else mark_duration tx * MARK_OFF tx)]) bits) @
                   trl) \<and>
            length ldr = 2 * nat (MARK_CYCLES tx * T_LEADER_ON tx) + 1 \<and>
            length trl = 2 * nat (MARK_CYCLES tx) + 1) \<and>
         length (half_cycle_pairs tx (2 ^ nat p) (nat (MARK_CYCLES tx))) = 2 * nat (MARK_CYCLES tx) \<and>
         total_duration (half_cycle_pairs tx (2 ^ nat p) (nat (MARK_CYCLES tx))) = mark_duration tx"
proof -
  let ?m = "2 ^ nat p :: int"
  let ?seg = "\<lambda>b. half_cycle_pairs tx ?m (nat (MARK_CYCLES tx)) @
                 [mk_pulse 0 ?m (if b = CHR ''0'' then mark_duration tx
                                 else mark_duration tx * MARK_OFF tx)]"
  let ?ldr = "half_cycle_pairs tx ?m (nat (MARK_CYCLES tx * T_LEADER_ON tx)) @
              [mk_pulse 0 ?m (T_CARRIER tx * MARK_CYCLES tx * T_LEADER_OFF tx)]"
  let ?trl = "half_cycle_pairs tx ?m (nat (MARK_CYCLES tx)) @
              [mk_pulse 0 ?m (8000 - T_CARRIER tx * MARK_CYCLES tx)]"
  have pin: "pin tx = p" using assms(1) by (rule init_fields(1))
  have eq: "concat (map (data_pulses tx ?m) bits) = concat (map ?seg bits)"
    using assms(3) by (intro arg_cong[where f = concat] map_cong refl data_pulses_bit) auto
  have "synthesize_frame tx bits = Inr (?ldr @ concat (map ?seg bits) @ ?trl)"
    unfolding eq[symmetric]
    using synthesize_frame_layout[of tx bits] assms(2) pin by simp
  moreover have "length ?ldr = 2 * nat (MARK_CYCLES tx * T_LEADER_ON tx) + 1"
    and "length ?trl = 2 * nat (MARK_CYCLES tx) + 1"
    by (simp_all add: length_half_cycle_pairs)
  ultimately show ?thesis
    using init_mark_duration[OF assms(1)] length_half_cycle_pairs by blast
qed

theorem data_bit_timing_witness:
  "init 13 ''127.0.0.1'' ''AEHA'' =
     Inr \<lparr>pin = 13, host = ''127.0.0.1'', T_CARRIER = 26, MARK_CYCLES = 17, MARK_OFF = 3,
          T_LEADER_ON = 8, T_LEADER_OFF = 4\<rparr> \<and>
   set ''01'' \<subseteq> {CHR ''0'', CHR ''1''} \<and>
   (\<exists>ldr trl.
      synthesize_frame \<lparr>pin = 13, host = ''127.0.0.1'', T_CARRIER = 26, MARK_CYCLES = 17,
          MARK_OFF = 3, T_LEADER_ON = 8, T_LEADER_OFF = 4\<rparr> ''01'' =
        Inr (ldr @
             (half_cycle_pairs \<lparr>pin = 13, host = ''127.0.0.1'', T_CARRIER = 26, MARK_CYCLES = 17,
                MARK_OFF = 3, T_LEADER_ON = 8, T_LEADER_OFF = 4\<rparr> 8192 17 @ [mk_pulse 0 8192 442]) @
             (half_cycle_pairs \<lparr>pin = 13, host = ''127.0.0.1'', T_CARRIER = 26, MARK_CYCLES = 17,
                MARK_OFF = 3, T_LEADER_ON = 8, T_LEADER_OFF = 4\<rparr> 8192 17 @ [mk_pulse 0 8192 1326]) @
             trl) \<and>
      length ldr = 273 \<and> length trl = 35) \<and>
   total_duration (half_cycle_pairs \<lparr>pin = 13, host = ''127.0.0.1'', T_CARRIER = 26,
      MARK_CYCLES = 17, MARK_OFF = 3, T_LEADER_ON = 8, T_LEADER_OFF = 4\<rparr> 8192 17) = 442"
proof -
  have i: "init 13 ''127.0.0.1'' ''AEHA'' =
     Inr \<lparr>pin = 13, host = ''127.0.0.1'', T_CARRIER = 26, MARK_CYCLES = 17, MARK_OFF = 3,
          T_LEADER_ON = 8, T_LEADER_OFF = 4\<rparr>"
    by (simp add: init_def)
  have b: "set ''01'' \<subseteq> {CHR ''0'', CHR ''1''}" by simp
  show ?thesis
    using data_bit_timing[OF i _ b] i by (simp add: mark_duration_def)
qed

subsection \<open>The trailer\<close>



subsection \<open>The length of a frame in time\<close>

lemma total_duration_Cons: "total_duration (q # wb) = delay q + total_duration wb"
  by (simp add: total_duration_def)

lemma total_duration_Nil: "total_duration [] = 0"
  by (simp add: total_duration_def)

lemma delay_mk_pulse: "delay (mk_pulse on off d) = d"
  by (simp add: mk_pulse_def)

lemma total_duration_data:
  assumes "set bits \<subseteq> {CHR ''0'', CHR ''1''}"
  shows "total_duration (concat (map (data_pulses tx m) bits)) =
           (total_duration (half_cycle_pairs tx m (nat (MARK_CYCLES tx))) + mark_duration tx)
              * int (length bits)
           + (mark_duration tx * MARK_OFF tx - mark_duration tx) * int (count_list bits (CHR ''1''))"
  using assms
proof (induction bits)
  case Nil
  show ?case by (simp add: total_duration_Nil)
next
  case (Cons b bits)
  then have b: "b = CHR ''0'' \<or> b = CHR ''1''" and rest: "set bits \<subseteq> {CHR ''0'', CHR ''1''}"
    by auto
  have "total_duration (data_pulses tx m b) =
          total_duration (half_cycle_pairs tx m (nat (MARK_CYCLES tx))) + mark_duration tx
          + (if b = CHR ''1'' then mark_duration tx * MARK_OFF tx - mark_duration tx else 0)"
    using b by (auto simp: data_pulses_bit total_duration_append total_duration_Cons
        total_duration_Nil delay_mk_pulse)
  then show ?case
    using Cons.IH[OF rest] b by (auto simp: total_duration_append algebra_simps)
qed

text \<open>
  Claim C9. Under either profile, for a string of \<open>n\<close> characters 0 and 1 of which \<open>k\<close>
  are 1, the delays of the synthesized frame add up to
  \<open>mark_duration * (T_LEADER_ON + T_LEADER_OFF + 2 * n + 2 * k) + 8000\<close> microseconds.
\<close>

theorem frame_total_duration:
  assumes "init p h f = Inr tx" and "0 \<le> p" and "set bits \<subseteq> {CHR ''0'', CHR ''1''}"
  shows "\<exists>wb. synthesize_frame tx bits = Inr wb \<and>
           total_duration wb =
             mark_duration tx *
               (T_LEADER_ON tx + T_LEADER_OFF tx + 2 * int (length bits)
                  + 2 * int (count_list bits (CHR ''1'')))
             + 8000"
proof -
  let ?m = "2 ^ nat p :: int"
  note i = init_fields[OF assms(1)]
  have mark: "total_duration (half_cycle_pairs tx ?m (nat (MARK_CYCLES tx))) = mark_duration tx"
    using assms(1) by (rule init_mark_duration)
  have leader: "total_duration (half_cycle_pairs tx ?m (nat (MARK_CYCLES tx * T_LEADER_ON tx)))
                  = mark_duration tx * T_LEADER_ON tx"
    using i by (auto simp: total_duration_half_cycle_pairs mark_duration_def)
  have data: "total_duration (concat (map (data_pulses tx ?m) bits)) =
                mark_duration tx * (2 * int (length bits) + 2 * int (count_list bits (CHR ''1'')))"
    using total_duration_data[OF assms(3), of tx ?m] mark i(3) by (simp add: algebra_simps)
  have "synthesize_frame tx bits =
     Inr (half_cycle_pairs tx ?m (nat (MARK_CYCLES tx * T_LEADER_ON tx)) @
          [mk_pulse 0 ?m (T_CARRIER tx * MARK_CYCLES tx * T_LEADER_OFF tx)] @
          concat (map (data_pulses tx ?m) bits) @
          half_cycle_pairs tx ?m (nat (MARK_CYCLES tx)) @
          [mk_pulse 0 ?m (8000 - T_CARRIER tx * MARK_CYCLES tx)])"
    using synthesize_frame_layout[of tx bits] i(1) assms(2) by simp
  moreover have "total_duration
         (half_cycle_pairs tx ?m (nat (MARK_CYCLES tx * T_LEADER_ON tx)) @
          [mk_pulse 0 ?m (T_CARRIER tx * MARK_CYCLES tx * T_LEADER_OFF tx)] @
          concat (map (data_pulses tx ?m) bits) @
          half_cycle_pairs tx ?m (nat (MARK_CYCLES tx)) @
          [mk_pulse 0 ?m (8000 - T_CARRIER tx * MARK_CYCLES tx)])
        = mark_duration tx *
               (T_LEADER_ON tx + T_LEADER_OFF tx + 2 * int (length bits)
                  + 2 * int (count_list bits (CHR ''1'')))
             + 8000"
    unfolding total_duration_append total_duration_Cons total_duration_Nil delay_mk_pulse
      mark leader data
    by (simp add: mark_duration_def algebra_simps)
  ultimately show ?thesis by simp
qed

theorem frame_total_duration_witness:
  "init 13 ''127.0.0.1'' ''AEHA'' =
     Inr \<lparr>pin = 13, host = ''127.0.0.1'', T_CARRIER = 26, MARK_CYCLES = 17, MARK_OFF = 3,
          T_LEADER_ON = 8, T_LEADER_OFF = 4\<rparr> \<and>
   set ''011'' \<subseteq> {CHR ''0'', CHR ''1''} \<and>
   (\<exists>wb. synthesize_frame \<lparr>pin = 13, host = ''127.0.0.1'', T_CARRIER = 26, MARK_CYCLES = 17,
          MARK_OFF = 3, T_LEADER_ON = 8, T_LEADER_OFF = 4\<rparr> ''011'' = Inr wb \<and>
         total_duration wb = 442 * (8 + 4 + 2 * 3 + 2 * 2) + 8000)"
proof -
  have i: "init 13 ''127.0.0.1'' ''AEHA'' =
     Inr \<lparr>pin = 13, host = ''127.0.0.1'', T_CARRIER = 26, MARK_CYCLES = 17, MARK_OFF = 3,
          T_LEADER_ON = 8, T_LEADER_OFF = 4\<rparr>"
    by (simp add: init_def)
  have b: "set ''011'' \<subseteq> {CHR ''0'', CHR ''1''}" by simp
  show ?thesis
    using frame_total_duration[OF i _ b] i by (simp add: mark_duration_def)
qed

subsection \<open>Every delay is positive\<close>

lemma delay_half_cycle_pairs:
  "q \<in> set (half_cycle_pairs tx m k) \<Longrightarrow> delay q = T_CARRIER tx div 2"
proof (induction k)
  case 0
  then show ?case by (simp add: half_cycle_pairs_def)
next
  case (Suc k)
  then show ?case by (auto simp: half_cycle_pairs_Suc delay_mk_pulse)
qed

lemma delay_data_pulses:
  "q \<in> set (data_pulses tx m b) \<Longrightarrow>
     delay q \<in> {T_CARRIER tx div 2, T_CARRIER tx * MARK_CYCLES tx,
                 T_CARRIER tx * MARK_CYCLES tx * MARK_OFF tx}"
  by (auto simp: data_pulses_eq delay_mk_pulse dest: delay_half_cycle_pairs split: if_splits)

lemma delay_frame:
  assumes "synthesize_frame tx bits = Inr wb" and "q \<in> set wb"
  shows "delay q \<in> {T_CARRIER tx div 2, T_CARRIER tx * MARK_CYCLES tx,
                 T_CARRIER tx * MARK_CYCLES tx * MARK_OFF tx,
                 T_CARRIER tx * MARK_CYCLES tx * T_LEADER_OFF tx,
                 8000 - T_CARRIER tx * MARK_CYCLES tx}"
proof -
  have pin: "0 \<le> pin tx"
    using assms(1) by (auto simp: synthesize_frame_def pin_mask_def split: if_splits)
  from assms show ?thesis
    unfolding synthesize_frame_layout[OF pin]
    by (auto simp: delay_mk_pulse dest: delay_half_cycle_pairs dest!: delay_data_pulses)
qed

text \<open>
  Claim C10. Under either profile, for every string of characters 0 and 1, every pulse of
  the synthesized frame has a positive delay: 13, 442, 1326, 1768 or 7558 microseconds
  under AEHA and 13, 572, 1716, 4576 or 7428 microseconds under NEC.
\<close>

theorem frame_delays_positive:
  assumes "init p h f = Inr tx" and "0 \<le> p" and "set bits \<subseteq> {CHR ''0'', CHR ''1''}"
  shows "\<exists>wb. synthesize_frame tx bits = Inr wb \<and>
           (\<forall>q \<in> set wb. 0 < delay q) \<and>
           (f = ''AEHA'' \<longrightarrow> (\<forall>q \<in> set wb. delay q \<in> {13, 442, 1326, 1768, 7558})) \<and>
           (f = ''NEC'' \<longrightarrow> (\<forall>q \<in> set wb. delay q \<in> {13, 572, 1716, 4576, 7428}))"
proof -
  note i = init_fields[OF assms(1)]
  have "0 \<le> pin tx" using i(1) assms(2) by simp
  then obtain wb where wb: "synthesize_frame tx bits = Inr wb"
    using synthesize_frame_layout by blast
  have aeha: "\<forall>q \<in> set wb. delay q \<in> {13, 442, 1326, 1768, 7558}" if "f = ''AEHA''"
    using delay_frame[OF wb] i(2,3) i(5)[OF that] by auto
  have nec: "\<forall>q \<in> set wb. delay q \<in> {13, 572, 1716, 4576, 7428}" if "f = ''NEC''"
    using delay_frame[OF wb] i(2,3) i(6)[OF that] by auto
  have "\<forall>q \<in> set wb. 0 < delay q"
    using i(4) aeha nec by fastforce
  with wb aeha nec show ?thesis by blast
qed

theorem frame_delays_positive_witness:
  "init 13 ''127.0.0.1'' ''AEHA'' =
     Inr \<lparr>pin = 13, host = ''127.0.0.1'', T_CARRIER = 26, MARK_CYCLES = 17, MARK_OFF = 3,
          T_LEADER_ON = 8, T_LEADER_OFF = 4\<rparr> \<and>
   set ''01'' \<subseteq> {CHR ''0'', CHR ''1''} \<and>
   (\<exists>wb. synthesize_frame \<lparr>pin = 13, host = ''127.0.0.1'', T_CARRIER = 26, MARK_CYCLES = 17,
          MARK_OFF = 3, T_LEADER_ON = 8, T_LEADER_OFF = 4\<rparr> ''01'' = Inr wb \<and>
         (\<forall>q \<in> set wb. 0 < delay q) \<and>
         (\<forall>q \<in> set wb. delay q \<in> {13, 442, 1326, 1768, 7558}))"
proof -
  have i: "init 13 ''127.0.0.1'' ''AEHA'' =
     Inr \<lparr>pin = 13, host = ''127.0.0.1'', T_CARRIER = 26, MARK_CYCLES = 17, MARK_OFF = 3,
          T_LEADER_ON = 8, T_LEADER_OFF = 4\<rparr>"
    by (simp add: init_def)
  have b: "set ''01'' \<subseteq> {CHR ''0'', CHR ''1''}" by simp
  show ?thesis
    using frame_delays_positive[OF i _ b] i by simp
qed

section \<open>Sending a payload\<close>

lemma synthesize_frame_bits:
  assumes "0 \<le> pin tx" and "set bits \<subseteq> {CHR ''0'', CHR ''1''}"
  shows "synthesize_frame tx bits =
     Inr (half_cycle_pairs tx (2 ^ nat (pin tx)) (nat (MARK_CYCLES tx * T_LEADER_ON tx)) @
          [mk_pulse 0 (2 ^ nat (pin tx)) (T_CARRIER tx * MARK_CYCLES tx * T_LEADER_OFF tx)] @
          concat (map (\<lambda>b. half_cycle_pairs tx (2 ^ nat (pin tx)) (nat (MARK_CYCLES tx)) @
                           [mk_pulse 0 (2 ^ nat (pin tx))
                              (if b = CHR ''0'' then mark_duration tx
                               else mark_duration tx * MARK_OFF tx)]) bits) @
          half_cycle_pairs tx (2 ^ nat (pin tx)) (nat (MARK_CYCLES tx)) @
          [mk_pulse 0 (2 ^ nat (pin tx)) (8000 - T_CARRIER tx * MARK_CYCLES tx)])"
proof -
  have "concat (map (data_pulses tx (2 ^ nat (pin tx))) bits) =
        concat (map (\<lambda>b. half_cycle_pairs tx (2 ^ nat (pin tx)) (nat (MARK_CYCLES tx)) @
                           [mk_pulse 0 (2 ^ nat (pin tx))
                              (if b = CHR ''0'' then mark_duration tx
                               else mark_duration tx * MARK_OFF tx)]) bits)"
    using assms(2) by (intro arg_cong[where f = concat] map_cong refl data_pulses_bit) auto
  then show ?thesis
    using synthesize_frame_layout[OF assms(1), of bits] by simp
qed

subsection \<open>The night-mode signal of the test code\<close>

text \<open>
  Claim C8. Under the AEHA profile the payload \<open>2c52092e27\<close> is encoded into 40 bits, and
  the frame that \<open>send\<close> builds from them is: a leader mark of 136 half-cycle pairs with
  halves of 13 microseconds, 3536 microseconds in total; a leader space of 1768
  microseconds; for each bit a mark of 442 microseconds (17 pairs) and its space; a
  trailer mark and a trailer space of 7558 microseconds.
\<close>

theorem aeha_example:
  assumes "init p h ''AEHA'' = Inr tx" and "0 \<le> p"
  shows "get_bitstream ''2c52092e27'' = Inr ''0011010001001010100100000111010011100100'' \<and>
         length ''0011010001001010100100000111010011100100'' = 40 \<and>
         send tx ''2c52092e27'' =
           Inr (half_cycle_pairs tx (2 ^ nat p) 136 @
                [mk_pulse 0 (2 ^ nat p) 1768] @
                concat (map (\<lambda>b. half_cycle_pairs tx (2 ^ nat p) 17 @
                                 [mk_pulse 0 (2 ^ nat p) (if b = CHR ''0'' then 442 else 1326)])
                          ''0011010001001010100100000111010011100100'') @
                half_cycle_pairs tx (2 ^ nat p) 17 @
                [mk_pulse 0 (2 ^ nat p) 7558]) \<and>
         half_cycle_pairs tx (2 ^ nat p) 136 =
           concat (replicate 136 [mk_pulse (2 ^ nat p) 0 13, mk_pulse 0 (2 ^ nat p) 13]) \<and>
         total_duration (half_cycle_pairs tx (2 ^ nat p) 136) = 3536 \<and>
         total_duration (half_cycle_pairs tx (2 ^ nat p) 17) = 442"
proof -
  note i = init_fields[OF assms(1)]
  have f: "pin tx = p" "T_CARRIER tx = 26" "MARK_OFF tx = 3"
    "MARK_CYCLES tx = 17" "T_LEADER_ON tx = 8" "T_LEADER_OFF tx = 4"
    using i by simp_all
  have pin: "0 \<le> pin tx" using f assms(2) by simp
  have bits: "set ''0011010001001010100100000111010011100100'' \<subseteq> {CHR ''0'', CHR ''1''}"
    by simp
  have bs: "get_bitstream ''2c52092e27'' = Inr ''0011010001001010100100000111010011100100''"
    by code_simp
  have "send tx ''2c52092e27'' = synthesize_frame tx ''0011010001001010100100000111010011100100''"
    by (simp only: send_def bs sum.case)
  also have "\<dots> = Inr (half_cycle_pairs tx (2 ^ nat p) 136 @
                [mk_pulse 0 (2 ^ nat p) 1768] @
                concat (map (\<lambda>b. half_cycle_pairs tx (2 ^ nat p) 17 @
                                 [mk_pulse 0 (2 ^ nat p) (if b = CHR ''0'' then 442 else 1326)])
                          ''0011010001001010100100000111010011100100'') @
                half_cycle_pairs tx (2 ^ nat p) 17 @
                [mk_pulse 0 (2 ^ nat p) 7558])"
    unfolding synthesize_frame_bits[OF pin bits] f mark_duration_def by simp
  finally have snd: "send tx ''2c52092e27'' = Inr (half_cycle_pairs tx (2 ^ nat p) 136 @
                [mk_pulse 0 (2 ^ nat p) 1768] @
                concat (map (\<lambda>b. half_cycle_pairs tx (2 ^ nat p) 17 @
                                 [mk_pulse 0 (2 ^ nat p) (if b = CHR ''0'' then 442 else 1326)])
                          ''0011010001001010100100000111010011100100'') @
                half_cycle_pairs tx (2 ^ nat p) 17 @
                [mk_pulse 0 (2 ^ nat p) 7558])" .
  have hc: "half_cycle_pairs tx (2 ^ nat p) 136 =
           concat (replicate 136 [mk_pulse (2 ^ nat p) 0 13, mk_pulse 0 (2 ^ nat p) 13])"
    by (simp add: half_cycle_pairs_def f)
  have d1: "total_duration (half_cycle_pairs tx (2 ^ nat p) 136) = 3536"
    by (simp add: total_duration_half_cycle_pairs f)
  have d2: "total_duration (half_cycle_pairs tx (2 ^ nat p) 17) = 442"
    by (simp add: total_duration_half_cycle_pairs f)
  have len: "length ''0011010001001010100100000111010011100100'' = 40" by simp
  from bs len snd hc d1 d2 show ?thesis by (intro conjI)
qed

theorem aeha_example_witness:
  "init 13 ''127.0.0.1'' ''AEHA'' =
     Inr \<lparr>pin = 13, host = ''127.0.0.1'', T_CARRIER = 26, MARK_CYCLES = 17, MARK_OFF = 3,
          T_LEADER_ON = 8, T_LEADER_OFF = 4\<rparr> \<and>
   send \<lparr>pin = 13, host = ''127.0.0.1'', T_CARRIER = 26, MARK_CYCLES = 17, MARK_OFF = 3,
          T_LEADER_ON = 8, T_LEADER_OFF = 4\<rparr> ''2c52092e27'' =
           Inr (half_cycle_pairs \<lparr>pin = 13, host = ''127.0.0.1'', T_CARRIER = 26, MARK_CYCLES = 17,
                  MARK_OFF = 3, T_LEADER_ON = 8, T_LEADER_OFF = 4\<rparr> 8192 136 @
                [mk_pulse 0 8192 1768] @
                concat (map (\<lambda>b. half_cycle_pairs \<lparr>pin = 13, host = ''127.0.0.1'', T_CARRIER = 26,
                                   MARK_CYCLES = 17, MARK_OFF = 3, T_LEADER_ON = 8,
                                   T_LEADER_OFF = 4\<rparr> 8192 17 @
                                 [mk_pulse 0 8192 (if b = CHR ''0'' then 442 else 1326)])
                          ''0011010001001010100100000111010011100100'') @
                half_cycle_pairs \<lparr>pin = 13, host = ''127.0.0.1'', T_CARRIER = 26, MARK_CYCLES = 17,
                  MARK_OFF = 3, T_LEADER_ON = 8, T_LEADER_OFF = 4\<rparr> 8192 17 @
                [mk_pulse 0 8192 7558])"
proof -
  have i: "init 13 ''127.0.0.1'' ''AEHA'' =
     Inr \<lparr>pin = 13, host = ''127.0.0.1'', T_CARRIER = 26, MARK_CYCLES = 17, MARK_OFF = 3,
          T_LEADER_ON = 8, T_LEADER_OFF = 4\<rparr>"
    by (simp add: init_def)
  have p: "(0::int) \<le> 13" by simp
  from aeha_example[OF i p] have
    "send \<lparr>pin = 13, host = ''127.0.0.1'', T_CARRIER = 26, MARK_CYCLES = 17, MARK_OFF = 3,
          T_LEADER_ON = 8, T_LEADER_OFF = 4\<rparr> ''2c52092e27'' =
           Inr (half_cycle_pairs \<lparr>pin = 13, host = ''127.0.0.1'', T_CARRIER = 26, MARK_CYCLES = 17,
                  MARK_OFF = 3, T_LEADER_ON = 8, T_LEADER_OFF = 4\<rparr> (2 ^ nat 13) 136 @
                [mk_pulse 0 (2 ^ nat 13) 1768] @
                concat (map (\<lambda>b. half_cycle_pairs \<lparr>pin = 13, host = ''127.0.0.1'', T_CARRIER = 26,
                                   MARK_CYCLES = 17, MARK_OFF = 3, T_LEADER_ON = 8,
                                   T_LEADER_OFF = 4\<rparr> (2 ^ nat 13) 17 @
                                 [mk_pulse 0 (2 ^ nat 13) (if b = CHR ''0'' then 442 else 1326)])
                          ''0011010001001010100100000111010011100100'') @
                half_cycle_pairs \<lparr>pin = 13, host = ''127.0.0.1'', T_CARRIER = 26, MARK_CYCLES = 17,
                  MARK_OFF = 3, T_LEADER_ON = 8, T_LEADER_OFF = 4\<rparr> (2 ^ nat 13) 17 @
                [mk_pulse 0 (2 ^ nat 13) 7558])"
    by (elim conjE)
  moreover have "(2::int) ^ nat 13 = 8192" by simp
  ultimately show ?thesis using i by (simp only:) 
qed

subsection \<open>The empty payload\<close>

lemma get_bitstream_Nil: "get_bitstream [] = Inr []"
  by (simp add: get_bitstream_def)

text \<open>
  Claim C4, as amended. Sending the empty payload raises nothing: \<open>get_bitstream\<close> returns
  the empty bitstream, and \<open>send\<close> builds the frame that has the leader and the trailer
  and no data bit between them, and hands it to pigpio.
\<close>

theorem send_empty_payload:
  assumes "0 \<le> pin tx"
  shows "get_bitstream '''' = Inr '''' \<and>
         send tx '''' =
           Inr (half_cycle_pairs tx (2 ^ nat (pin tx)) (nat (MARK_CYCLES tx * T_LEADER_ON tx)) @
                [mk_pulse 0 (2 ^ nat (pin tx)) (T_CARRIER tx * MARK_CYCLES tx * T_LEADER_OFF tx)] @
                half_cycle_pairs tx (2 ^ nat (pin tx)) (nat (MARK_CYCLES tx)) @
                [mk_pulse 0 (2 ^ nat (pin tx)) (8000 - T_CARRIER tx * MARK_CYCLES tx)])"
  using synthesize_frame_layout[OF assms, of "''''"]
  by (simp add: send_def get_bitstream_Nil)

theorem send_empty_payload_witness:
  "send \<lparr>pin = 13, host = ''127.0.0.1'', T_CARRIER = 26, MARK_CYCLES = 22, MARK_OFF = 3,
          T_LEADER_ON = 16, T_LEADER_OFF = 8\<rparr> '''' =
     Inr (half_cycle_pairs \<lparr>pin = 13, host = ''127.0.0.1'', T_CARRIER = 26, MARK_CYCLES = 22,
            MARK_OFF = 3, T_LEADER_ON = 16, T_LEADER_OFF = 8\<rparr> 8192 352 @
          [mk_pulse 0 8192 4576] @
          half_cycle_pairs \<lparr>pin = 13, host = ''127.0.0.1'', T_CARRIER = 26, MARK_CYCLES = 22,
            MARK_OFF = 3, T_LEADER_ON = 16, T_LEADER_OFF = 8\<rparr> 8192 22 @
          [mk_pulse 0 8192 7428])"
  using send_empty_payload[of "\<lparr>pin = 13, host = ''127.0.0.1'', T_CARRIER = 26, MARK_CYCLES = 22,
            MARK_OFF = 3, T_LEADER_ON = 16, T_LEADER_OFF = 8\<rparr>"]
  by simp

text \<open>
  The claim as stated asks for an error. Under the AEHA profile on pin 13 the empty
  payload becomes a frame of 136 leader cycles, the leader space, 17 trailer cycles and
  the trailer space.
\<close>

theorem send_empty_payload_counterexample:
  "init 13 ''127.0.0.1'' ''AEHA'' =
     Inr \<lparr>pin = 13, host = ''127.0.0.1'', T_CARRIER = 26, MARK_CYCLES = 17, MARK_OFF = 3,
          T_LEADER_ON = 8, T_LEADER_OFF = 4\<rparr> \<and>
   get_bitstream '''' = Inr '''' \<and>
   send \<lparr>pin = 13, host = ''127.0.0.1'', T_CARRIER = 26, MARK_CYCLES = 17, MARK_OFF = 3,
          T_LEADER_ON = 8, T_LEADER_OFF = 4\<rparr> '''' =
     Inr (half_cycle_pairs \<lparr>pin = 13, host = ''127.0.0.1'', T_CARRIER = 26, MARK_CYCLES = 17,
            MARK_OFF = 3, T_LEADER_ON = 8, T_LEADER_OFF = 4\<rparr> 8192 136 @
          [mk_pulse 0 8192 1768] @
          half_cycle_pairs \<lparr>pin = 13, host = ''127.0.0.1'', T_CARRIER = 26, MARK_CYCLES = 17,
            MARK_OFF = 3, T_LEADER_ON = 8, T_LEADER_OFF = 4\<rparr> 8192 17 @
          [mk_pulse 0 8192 7558])"
  by (simp add: init_def send_def get_bitstream_Nil synthesize_frame_def pin_mask_def
      carrier_loop_eq)

subsection \<open>Payloads that are not hexadecimal text\<close>

lemma space_not_digit: "py_isspace c \<Longrightarrow> \<not> is_digit16 c"
  by (auto simp: py_isspace_def is_digit16_def digit_value_def Let_def)

lemma sign_not_digit: "\<not> is_digit16 (CHR ''+'')" "\<not> is_digit16 (CHR ''-'')"
  by (simp_all add: is_digit16_def digit_value_def)

lemma sign_not_space: "\<not> py_isspace (CHR ''+'')" "\<not> py_isspace (CHR ''-'')"
  by (simp_all add: py_isspace_def)

lemma prefix_chars:
  "\<not> is_digit16 (CHR ''x'')" "\<not> is_digit16 (CHR ''X'')"
  "\<not> py_isspace (CHR ''x'')" "\<not> py_isspace (CHR ''X'')"
  "is_digit16 (CHR ''0'')" "\<not> is_digit16 (CHR ''_'')"
  by (simp_all add: is_digit16_def digit_value_def py_isspace_def)

lemma py_int16_error: "py_int16 x = Inl e \<Longrightarrow> e = ValueError"
  by (auto simp: py_int16_def Let_def split: if_splits prod.splits)

lemma int16_pair_accepted:
  "if accepted_pair a b then \<exists>v. py_int16 [a, b] = Inr v \<and> - 15 \<le> v \<and> v \<le> 255
   else py_int16 [a, b] = Inl ValueError"
proof (cases "py_isspace a")
  case True
  then show ?thesis
    using space_not_digit[of a] space_not_digit[of b] sign_not_digit sign_not_space
    by (auto simp: py_int16_def accepted_pair_def Let_def is_digit16_def)
next
  case False
  show ?thesis
  proof (cases "a = CHR ''+'' \<or> a = CHR ''-''")
    case True
    then show ?thesis
      using sign_not_digit sign_not_space space_not_digit[of b]
      by (auto simp: py_int16_def accepted_pair_def Let_def is_digit16_def)
  next
    case sign: False
    show ?thesis
    proof (cases "a = CHR ''0'' \<and> (b = CHR ''x'' \<or> b = CHR ''X'')")
      case True
      then show ?thesis
        using prefix_chars \<open>\<not> py_isspace a\<close> sign
        by (auto simp: py_int16_def accepted_pair_def Let_def)
    next
      case False
      then have "skip_prefix16 [a, b] = [a, b]" by auto
      then show ?thesis
        using \<open>\<not> py_isspace a\<close> sign space_not_digit[of b]
        by (auto simp: py_int16_def accepted_pair_def Let_def is_digit16_def)
    qed
  qed
qed

lemma int16_pair_rejected: "(py_int16 [a, b] = Inl ValueError) = (\<not> accepted_pair a b)"
  using int16_pair_accepted[of a b] by (auto split: if_splits)

lemma slice_pair:
  assumes "i < length s div 2"
  shows "slice s (i * 2) (i * 2 + 2) = [s ! (2 * i), s ! (2 * i + 1)]"
proof -
  have a: "2 * i < length s" and b: "Suc (2 * i) < length s" using assms by auto
  have "drop (2 * i) s = s ! (2 * i) # s ! Suc (2 * i) # drop (Suc (Suc (2 * i))) s"
    using a b by (simp add: Cons_nth_drop_Suc)
  then show ?thesis by (simp add: slice_def mult.commute)
qed

lemma bitstream_loop_Cons:
  assumes "j < length s div 2"
  shows "bitstream_loop s (j # js) acc =
           (case py_int16 [s ! (2 * j), s ! (2 * j + 1)] of
              Inl e \<Rightarrow> Inl e
            | Inr v \<Rightarrow> bitstream_loop s js (acc @ rev (format_08b v)))"
  by (simp only: bitstream_loop.simps Let_def slice_pair[OF assms])

lemma format_08b_length:
  assumes "- 15 \<le> v" and "v \<le> 255"
  shows "length (format_08b v) = 8"
proof (cases "v < 0")
  case True
  then have "nat (- v) < 2 ^ 7" using assms(1) by simp
  then have "length (bin_digits (nat (- v))) \<le> 7"
    by (intro length_bin_digits) simp_all
  then show ?thesis using True by (simp add: format_08b_def zfill_def)
next
  case False
  then have "nat v < 256" using assms(2) by simp
  from format_08b_byte(1)[OF this] False show ?thesis by simp
qed

lemma bitstream_loop_accepted:
  assumes "\<forall>j \<in> set js. j < length s div 2 \<and> accepted_pair (s ! (2 * j)) (s ! (2 * j + 1))"
  shows "\<exists>bits. bitstream_loop s js acc = Inr (acc @ bits) \<and> length bits = 8 * length js"
  using assms
proof (induction js arbitrary: acc)
  case Nil
  show ?case by simp
next
  case (Cons j js)
  then have j: "j < length s div 2" and ok: "accepted_pair (s ! (2 * j)) (s ! (2 * j + 1))"
    by auto
  obtain v where v: "py_int16 [s ! (2 * j), s ! (2 * j + 1)] = Inr v" "- 15 \<le> v" "v \<le> 255"
    using int16_pair_accepted[of "s ! (2 * j)" "s ! (2 * j + 1)"] ok by auto
  obtain bits where bits:
    "bitstream_loop s js (acc @ rev (format_08b v)) = Inr ((acc @ rev (format_08b v)) @ bits)"
    "length bits = 8 * length js"
    using Cons.IH[of "acc @ rev (format_08b v)"] Cons.prems by auto
  have "bitstream_loop s (j # js) acc = Inr (acc @ rev (format_08b v) @ bits)"
    using bits(1) v(1) by (simp add: bitstream_loop_Cons[OF j] del: bitstream_loop.simps)
  moreover have "length (rev (format_08b v) @ bits) = 8 * length (j # js)"
    using bits(2) format_08b_length[OF v(2,3)] by simp
  ultimately show ?case by blast
qed

lemma bitstream_loop_rejected:
  assumes "\<forall>j \<in> set js. j < length s div 2"
    and "\<exists>j \<in> set js. \<not> accepted_pair (s ! (2 * j)) (s ! (2 * j + 1))"
  shows "bitstream_loop s js acc = Inl ValueError"
  using assms
proof (induction js arbitrary: acc)
  case Nil
  then show ?case by simp
next
  case (Cons j js)
  then have j: "j < length s div 2" by simp
  show ?case
  proof (cases "accepted_pair (s ! (2 * j)) (s ! (2 * j + 1))")
    case True
    then obtain v where v: "py_int16 [s ! (2 * j), s ! (2 * j + 1)] = Inr v"
      using int16_pair_accepted[of "s ! (2 * j)" "s ! (2 * j + 1)"] by auto
    have "bitstream_loop s js (acc @ rev (format_08b v)) = Inl ValueError"
      using Cons.IH[of "acc @ rev (format_08b v)"] Cons.prems True by auto
    then show ?thesis using v by (simp add: bitstream_loop_Cons[OF j] del: bitstream_loop.simps)
  next
    case False
    then have "py_int16 [s ! (2 * j), s ! (2 * j + 1)] = Inl ValueError"
      by (simp add: int16_pair_rejected)
    then show ?thesis by (simp add: bitstream_loop_Cons[OF j] del: bitstream_loop.simps)
  qed
qed

lemma bitstream_loop_cong:
  assumes "\<forall>j \<in> set js. slice s (j * 2) (j * 2 + 2) = slice s' (j * 2) (j * 2 + 2)"
  shows "bitstream_loop s js acc = bitstream_loop s' js acc"
  using assms by (induction js arbitrary: acc) (auto split: sum.splits)

lemma get_bitstream_even_prefix:
  "get_bitstream s = get_bitstream (take (2 * (length s div 2)) s)"
proof -
  let ?n = "length s div 2"
  have len: "length (take (2 * ?n) s) div 2 = ?n" by auto
  have "slice s (j * 2) (j * 2 + 2) = slice (take (2 * ?n) s) (j * 2) (j * 2 + 2)"
    if "j < ?n" for j
  proof -
    have "min (2 * ?n - j * 2) 2 = 2" using that by auto
    then show ?thesis by (simp add: slice_def drop_take min.commute)
  qed
  then have "bitstream_loop s [0 ..< ?n] [] = bitstream_loop (take (2 * ?n) s) [0 ..< ?n] []"
    by (intro bitstream_loop_cong) simp
  then show ?thesis
    unfolding get_bitstream_def len .
qed

text \<open>
  Claim C5, as amended. \<open>get_bitstream\<close> raises \<open>ValueError\<close>, and \<open>send\<close> with it before
  any synthesis, exactly when one of the \<open>len(s) // 2\<close> pairs of characters is not
  accepted by \<open>int(byte, 16)\<close>: a pair is accepted when it is two hexadecimal digits, a
  digit after a blank or a sign, or a digit before a blank. Otherwise 8 characters are
  returned for each pair. The last character of a text of odd length is never read: the
  text is encoded as its longest prefix of even length.
\<close>

theorem get_bitstream_malformed:
  "(if \<exists>i < length s div 2. \<not> accepted_pair (s ! (2 * i)) (s ! (2 * i + 1))
    then get_bitstream s = Inl ValueError \<and> send tx s = Inl ValueError
    else \<exists>bits. get_bitstream s = Inr bits \<and> length bits = 8 * (length s div 2)) \<and>
   get_bitstream s = get_bitstream (take (2 * (length s div 2)) s)"
proof -
  have idx: "\<forall>j \<in> set [0 ..< length s div 2]. j < length s div 2" by simp
  have bad: "get_bitstream s = Inl ValueError \<and> send tx s = Inl ValueError"
    if "\<exists>i < length s div 2. \<not> accepted_pair (s ! (2 * i)) (s ! (2 * i + 1))"
  proof -
    have "\<exists>j \<in> set [0 ..< length s div 2]. \<not> accepted_pair (s ! (2 * j)) (s ! (2 * j + 1))"
      using that by auto
    from bitstream_loop_rejected[OF idx this, of "[]"]
    show ?thesis by (simp add: get_bitstream_def send_def)
  qed
  have good: "\<exists>bits. get_bitstream s = Inr bits \<and> length bits = 8 * (length s div 2)"
    if "\<not> (\<exists>i < length s div 2. \<not> accepted_pair (s ! (2 * i)) (s ! (2 * i + 1)))"
  proof -
    have "\<forall>j \<in> set [0 ..< length s div 2].
            j < length s div 2 \<and> accepted_pair (s ! (2 * j)) (s ! (2 * j + 1))"
      using that by auto
    from bitstream_loop_accepted[OF this, of "[]"]
    show ?thesis by (simp add: get_bitstream_def)
  qed
  show ?thesis
    using bad good get_bitstream_even_prefix[of s] by (simp split: if_splits)
qed

theorem get_bitstream_malformed_witness:
  "get_bitstream ''0g'' = Inl ValueError \<and>
   send \<lparr>pin = 13, host = ''127.0.0.1'', T_CARRIER = 26, MARK_CYCLES = 17, MARK_OFF = 3,
          T_LEADER_ON = 8, T_LEADER_OFF = 4\<rparr> ''0g'' = Inl ValueError"
proof -
  have "\<not> accepted_pair (''0g'' ! (2 * 0)) (''0g'' ! (2 * 0 + 1))"
    by (simp add: accepted_pair_def is_digit16_def digit_value_def py_isspace_def)
  then have "\<exists>i < length ''0g'' div 2. \<not> accepted_pair (''0g'' ! (2 * i)) (''0g'' ! (2 * i + 1))"
    by (intro exI[of _ 0]) simp
  then show ?thesis
    using get_bitstream_malformed[of "''0g''" "\<lparr>pin = 13, host = ''127.0.0.1'', T_CARRIER = 26,
      MARK_CYCLES = 17, MARK_OFF = 3, T_LEADER_ON = 8, T_LEADER_OFF = 4\<rparr>"]
    by (simp only: if_True)
qed

text \<open>
  The claim as stated asks for an error on every text of odd length and on every text
  with a character that is not a hexadecimal digit. The text \<open>abc\<close> is encoded as \<open>ab\<close>,
  and \<open>send\<close> raises nothing for it; the text \<open>+a\<close> is encoded as the byte 10.
\<close>

theorem get_bitstream_malformed_counterexample:
  "get_bitstream ''abc'' = Inr ''11010101'' \<and>
   get_bitstream ''ab'' = Inr ''11010101'' \<and>
   get_bitstream ''+a'' = Inr ''01010000'' \<and>
   \<not> isl (send \<lparr>pin = 13, host = ''127.0.0.1'', T_CARRIER = 26, MARK_CYCLES = 17, MARK_OFF = 3,
          T_LEADER_ON = 8, T_LEADER_OFF = 4\<rparr> ''abc'')"
proof -
  have a: "get_bitstream ''abc'' = Inr ''11010101''" by code_simp
  have b: "get_bitstream ''ab'' = Inr ''11010101''" by code_simp
  have c: "get_bitstream ''+a'' = Inr ''01010000''" by code_simp
  have "\<not> isl (send \<lparr>pin = 13, host = ''127.0.0.1'', T_CARRIER = 26, MARK_CYCLES = 17,
          MARK_OFF = 3, T_LEADER_ON = 8, T_LEADER_OFF = 4\<rparr> ''abc'')"
    by (simp add: send_def a synthesize_frame_def pin_mask_def)
  with a b c show ?thesis by (intro conjI)
qed

section \<open>Construction\<close>

text \<open>
  Claim C6. The constructor raises \<open>Exception('Unknown format specified.')\<close> for every
  format name other than \<open>AEHA\<close> and \<open>NEC\<close>: no object is returned and no profile is
  taken for it.
\<close>

theorem init_unknown_format:
  assumes "f \<noteq> ''AEHA''" and "f \<noteq> ''NEC''"
  shows "init p h f = Inl (Exception ''Unknown format specified.'')"
  using assms by (simp add: init_def)

theorem init_unknown_format_witness:
  "''RC5'' \<noteq> ''AEHA'' \<and> ''RC5'' \<noteq> ''NEC'' \<and>
   init 13 ''127.0.0.1'' ''RC5'' = Inl (Exception ''Unknown format specified.'')"
  using init_unknown_format[of "''RC5''" 13 "''127.0.0.1''"] by simp

end
